theory Spec2Isabelle
  imports
    Complex_Main
    "HOL-Library.AList"
    "HOL-Library.Char_ord"
    "HOL-Library.List_Lexorder"
    "HOL-Library.Multiset"
    "HOL-Library.Product_Lexorder"
begin

section \<open>Data model\<close>

text \<open>
  The temporal feature engine of the tennis predictor: \<^verbatim>\<open>config.py\<close>,
  \<^verbatim>\<open>features/engineering.py\<close>, \<^verbatim>\<open>features/rolling.py\<close> and the score parser of
  \<^verbatim>\<open>data/preprocess.py\<close>.

  A data frame is the list of its rows, in frame order, with the default range index: the
  index label of a row is its position. Python's unbounded integers are \<^typ>\<open>int\<close>.
  Python floats are modelled by exact rationals, and a missing float (NaN) by \<^term>\<open>None\<close>
  of \<^typ>\<open>rat option\<close>. Strings are byte strings ordered lexicographically by character
  code, as Python orders ASCII strings.
\<close>

subsection \<open>config.py\<close>

definition DEFAULT_WIN_PCT :: rat where
  "DEFAULT_WIN_PCT = 1 / 2"

definition RECENT_FORM_WINDOWS :: "nat list" where
  "RECENT_FORM_WINDOWS = [5, 10]"

subsection \<open>Rows of the preprocessed frame\<close>

text \<open>
  The columns of the preprocessed frame that the feature code reads. \<open>tourney_date\<close> holds
  the value after \<^verbatim>\<open>pd.to_datetime(..., errors="coerce")\<close>: \<open>Some d\<close> for a date (ordered as
  the dates are) and \<open>None\<close> for \<^verbatim>\<open>NaT\<close>. \<open>surface\<close> is \<open>None\<close> where the cell is missing.
\<close>

record match_row =
  tourney_date :: "nat option"
  surface :: "string option"
  p1_name :: string
  p2_name :: string
  target :: int
  p1_games_won :: int
  p1_games_lost :: int
  p1_sets_won :: int
  p1_sets_lost :: int
  p2_games_won :: int
  p2_games_lost :: int
  p2_sets_won :: int
  p2_sets_lost :: int

section \<open>features/engineering.py: surface and head-to-head histories\<close>

text \<open>
  \<^verbatim>\<open>surface_history: { player: { surface: [wins, total] } }\<close> and
  \<^verbatim>\<open>h2h_history: { (first, second): [wins_first, wins_second] }\<close>. A Python dict keeps
  its keys in insertion order, so each is an association list; \<^const>\<open>AList.update\<close>
  overwrites the value of a present key in place and appends an absent key at the end.
\<close>

type_synonym surface_dict = "(string \<times> (int \<times> int)) list"
type_synonym surface_hist = "(string \<times> surface_dict) list"
type_synonym h2h_hist = "((string \<times> string) \<times> (int \<times> int)) list"

definition get_surface_win_pct :: "surface_hist \<Rightarrow> string \<Rightarrow> string \<Rightarrow> rat" where
  "get_surface_win_pct sh player surf =
     (if surf = ''Unknown'' then DEFAULT_WIN_PCT
      else (case map_of sh player of
              None \<Rightarrow> DEFAULT_WIN_PCT
            | Some d \<Rightarrow>
                (case map_of d surf of
                   None \<Rightarrow> DEFAULT_WIN_PCT
                 | Some (wins, tot) \<Rightarrow>
                     if tot > 0 then of_int wins / of_int tot else DEFAULT_WIN_PCT)))"

definition update_surface_history :: "surface_hist \<Rightarrow> string \<Rightarrow> string \<Rightarrow> bool \<Rightarrow> surface_hist" where
  "update_surface_history sh player surf won =
     (let d = (case map_of sh player of None \<Rightarrow> [] | Some d \<Rightarrow> d);
          e = (case map_of d surf of None \<Rightarrow> (0, 0) | Some e \<Rightarrow> e);
          tot' = snd e + 1;
          wins' = (if won then fst e + 1 else fst e)
      in AList.update player (AList.update surf (wins', tot') d) sh)"

text \<open>\<^verbatim>\<open>pair = tuple(sorted([p1, p2]))\<close>\<close>

definition sorted_pair :: "string \<Rightarrow> string \<Rightarrow> string \<times> string" where
  "sorted_pair p1 p2 = (if p1 \<le> p2 then (p1, p2) else (p2, p1))"

text \<open>Lines 71 to 81 of \<^verbatim>\<open>add_features\<close>: the differential read before the update.\<close>

definition h2h_lookup_diff :: "h2h_hist \<Rightarrow> string \<Rightarrow> string \<Rightarrow> int" where
  "h2h_lookup_diff hh p1 p2 =
     (let pair = sorted_pair p1 p2 in
      case map_of hh pair of
        Some (wins_a, wins_b) \<Rightarrow> (if p1 = fst pair then wins_a - wins_b else wins_b - wins_a)
      | None \<Rightarrow> 0)"

text \<open>Lines 89 to 98 of \<^verbatim>\<open>add_features\<close>: the update of the pair's record.\<close>

definition winner_index :: "string \<Rightarrow> string \<Rightarrow> bool \<Rightarrow> nat" where
  "winner_index p1 p2 p1_won =
     (let pair = sorted_pair p1 p2 in
      if (p1_won \<and> p1 = fst pair) \<or> (\<not> p1_won \<and> p1 \<noteq> fst pair) then 0 else 1)"

definition h2h_record :: "h2h_hist \<Rightarrow> string \<Rightarrow> string \<Rightarrow> bool \<Rightarrow> h2h_hist" where
  "h2h_record hh p1 p2 p1_won =
     (let pair = sorted_pair p1 p2;
          e = (case map_of hh pair of None \<Rightarrow> (0, 0) | Some e \<Rightarrow> e);
          e' = (if winner_index p1 p2 p1_won = 0 then (fst e + 1, snd e) else (fst e, snd e + 1))
      in AList.update pair e' hh)"

text \<open>The state of the loop over the rows: the two histories and the three feature lists.\<close>

record loop_state =
  surface_history :: surface_hist
  h2h_history :: h2h_hist
  p1_surface_pct :: "rat list"
  p2_surface_pct :: "rat list"
  h2h_diff :: "int list"

definition init_state :: loop_state where
  "init_state = \<lparr>surface_history = [], h2h_history = [],
                  p1_surface_pct = [], p2_surface_pct = [], h2h_diff = []\<rparr>"

definition row_surface :: "match_row \<Rightarrow> string" where
  "row_surface row = (case surface row of Some s \<Rightarrow> s | None \<Rightarrow> ''Unknown'')"

definition feature_step :: "loop_state \<Rightarrow> match_row \<Rightarrow> loop_state" where
  "feature_step st row =
     (let p1 = p1_name row;
          p2 = p2_name row;
          surf = row_surface row;
          p1_won = (target row = 1);
          a = get_surface_win_pct (surface_history st) p1 surf;
          b = get_surface_win_pct (surface_history st) p2 surf;
          diff = h2h_lookup_diff (h2h_history st) p1 p2;
          sh1 = update_surface_history (surface_history st) p1 surf p1_won;
          sh2 = update_surface_history sh1 p2 surf (\<not> p1_won);
          hh1 = h2h_record (h2h_history st) p1 p2 p1_won
      in \<lparr>surface_history = sh2, h2h_history = hh1,
          p1_surface_pct = p1_surface_pct st @ [a],
          p2_surface_pct = p2_surface_pct st @ [b],
          h2h_diff = h2h_diff st @ [diff]\<rparr>)"

definition feature_loop :: "match_row list \<Rightarrow> loop_state" where
  "feature_loop rows = foldl feature_step init_state rows"

section \<open>features/rolling.py: recent form\<close>

text \<open>
  A row of \<^verbatim>\<open>player_df\<close>: one event per match and role. \<open>match_index\<close> is the index label
  of the source row in the frame given to \<^verbatim>\<open>compute_rolling_features\<close>.
\<close>

record player_event =
  date :: "nat option"
  player :: string
  opponent :: string
  won :: int
  games_won :: int
  games_lost :: int
  sets_won :: int
  sets_lost :: int
  match_index :: nat
  is_p1 :: bool

definition p1_event :: "nat \<Rightarrow> match_row \<Rightarrow> player_event" where
  "p1_event i r =
     \<lparr>date = tourney_date r, player = p1_name r, opponent = p2_name r, won = target r,
      games_won = p1_games_won r, games_lost = p1_games_lost r,
      sets_won = p1_sets_won r, sets_lost = p1_sets_lost r,
      match_index = i, is_p1 = True\<rparr>"

definition p2_event :: "nat \<Rightarrow> match_row \<Rightarrow> player_event" where
  "p2_event i r =
     \<lparr>date = tourney_date r, player = p2_name r, opponent = p1_name r, won = 1 - target r,
      games_won = p2_games_won r, games_lost = p2_games_lost r,
      sets_won = p2_sets_won r, sets_lost = p2_sets_lost r,
      match_index = i, is_p1 = False\<rparr>"

text \<open>\<^verbatim>\<open>pd.concat([df_p1, df_p2], ignore_index=True)\<close>\<close>

definition player_df :: "match_row list \<Rightarrow> player_event list" where
  "player_df df =
     map (\<lambda>(i, r). p1_event i r) (enumerate 0 df) @ map (\<lambda>(i, r). p2_event i r) (enumerate 0 df)"

text \<open>
  \<^verbatim>\<open>sort_values(['player', 'date', 'match_index'])\<close>: a sort on several columns is a
  stable lexicographic sort, and a missing date sorts last.
\<close>

definition date_key :: "nat option \<Rightarrow> bool \<times> nat" where
  "date_key d = (case d of None \<Rightarrow> (True, 0) | Some t \<Rightarrow> (False, t))"

definition event_key :: "player_event \<Rightarrow> string \<times> (bool \<times> nat) \<times> nat" where
  "event_key e = (player e, date_key (date e), match_index e)"

definition sorted_player_df :: "match_row list \<Rightarrow> player_event list" where
  "sorted_player_df df = sort_key event_key (player_df df)"

text \<open>\<^verbatim>\<open>metrics = ['won', 'games_won', 'games_lost', 'sets_won', 'sets_lost']\<close>\<close>

datatype metric = Won | GamesWon | GamesLost | SetsWon | SetsLost

fun metric_value :: "metric \<Rightarrow> player_event \<Rightarrow> int" where
  "metric_value Won e = won e"
| "metric_value GamesWon e = games_won e"
| "metric_value GamesLost e = games_lost e"
| "metric_value SetsWon e = sets_won e"
| "metric_value SetsLost e = sets_lost e"

text \<open>The mean of a window; NaN when the window holds no observation.\<close>

definition mean :: "rat list \<Rightarrow> rat option" where
  "mean vs = (if vs = [] then None else Some (sum_list vs / of_nat (length vs)))"

definition last_n :: "nat \<Rightarrow> 'a list \<Rightarrow> 'a list" where
  "last_n n xs = drop (length xs - n) xs"

text \<open>
  \<^verbatim>\<open>grouped.apply(lambda x: x.shift(1).rolling(window=window, min_periods=1).mean())\<close>
  at the row at position \<open>j\<close> of the sorted player frame: the group of the row is the rows
  of the same player in frame order, \<^verbatim>\<open>shift(1)\<close> moves every value of the group one row
  down, and the window of \<open>window\<close> shifted rows ending at the row holds the values of the
  up to \<open>window\<close> rows of the group just before it. With \<^verbatim>\<open>min_periods=1\<close> one
  observation suffices for a mean.
\<close>

definition group_before :: "player_event list \<Rightarrow> nat \<Rightarrow> player_event list" where
  "group_before pdf j = filter (\<lambda>e. player e = player (pdf ! j)) (take j pdf)"

definition rolling_stat :: "player_event list \<Rightarrow> nat \<Rightarrow> metric \<Rightarrow> nat \<Rightarrow> rat option" where
  "rolling_stat pdf window m j =
     mean (map (\<lambda>e. of_int (metric_value m e)) (last_n window (group_before pdf j)))"

definition recent_col :: "player_event list \<Rightarrow> nat \<Rightarrow> metric \<Rightarrow> rat option list" where
  "recent_col pdf window m = map (rolling_stat pdf window m) [0..<length pdf]"

text \<open>
  \<^verbatim>\<open>fillna\<close>: the win rate columns with the default, the other columns with the mean of
  the column itself, which skips NaN and is NaN when the column holds nothing else.
\<close>

definition fillna :: "rat option \<Rightarrow> rat option list \<Rightarrow> rat option list" where
  "fillna v col = map (\<lambda>x. case x of None \<Rightarrow> v | Some y \<Rightarrow> Some y) col"

definition col_mean :: "rat option list \<Rightarrow> rat option" where
  "col_mean col = mean (List.map_filter (\<lambda>x. x) col)"

definition filled_col :: "player_event list \<Rightarrow> nat \<Rightarrow> metric \<Rightarrow> rat option list" where
  "filled_col pdf window m =
     (let col = recent_col pdf window m in
      if m = Won then fillna (Some DEFAULT_WIN_PCT) col else fillna (col_mean col) col)"

text \<open>
  The join on the index: the value that the row with index label \<open>k\<close> receives from the
  events of one role. \<open>role = True\<close> is the \<^verbatim>\<open>p1_\<close> column, \<open>False\<close> the \<^verbatim>\<open>p2_\<close> column.
\<close>

definition joined_value :: "player_event list \<Rightarrow> bool \<Rightarrow> nat \<Rightarrow> metric \<Rightarrow> nat \<Rightarrow> rat option" where
  "joined_value pdf role window m k =
     (case find (\<lambda>(e, v). is_p1 e = role \<and> match_index e = k) (zip pdf (filled_col pdf window m)) of
        None \<Rightarrow> None
      | Some (e, v) \<Rightarrow> v)"

text \<open>
  The columns joined to one row: \<open>p1_recent w m\<close> is the column
  \<^verbatim>\<open>p1_recent_<m>_<w>\<close>, which exists for the configured windows only.
\<close>

record rolling_cols =
  p1_recent :: "nat \<Rightarrow> metric \<Rightarrow> rat option"
  p2_recent :: "nat \<Rightarrow> metric \<Rightarrow> rat option"

definition compute_rolling_features :: "match_row list \<Rightarrow> rolling_cols list" where
  "compute_rolling_features df =
     (let pdf = sorted_player_df df in
      map (\<lambda>k.
        \<lparr>p1_recent = (\<lambda>w m. if w \<in> set RECENT_FORM_WINDOWS then joined_value pdf True w m k else None),
         p2_recent = (\<lambda>w m. if w \<in> set RECENT_FORM_WINDOWS then joined_value pdf False w m k else None)\<rparr>)
        [0..<length df])"

section \<open>features/engineering.py: add_features\<close>


record feature_row =
  row :: match_row
  p1_surface_win_pct :: rat
  p2_surface_win_pct :: rat
  h2h_diff_col :: int
  rolling :: rolling_cols

definition add_features ::
  "(match_row list \<Rightarrow> match_row list) \<Rightarrow> match_row list \<Rightarrow> feature_row list \<times> surface_hist \<times> h2h_hist" where
  "add_features sort_values df0 =
     (let df = sort_values df0;
          st = feature_loop df;
          roll = compute_rolling_features df
      in (map (\<lambda>k. \<lparr>row = df ! k,
                     p1_surface_win_pct = p1_surface_pct st ! k,
                     p2_surface_win_pct = p2_surface_pct st ! k,
                     h2h_diff_col = h2h_diff st ! k,
                     rolling = roll ! k\<rparr>) [0..<length df],
          surface_history st, h2h_history st))"

section \<open>data/preprocess.py: parse_match_score\<close>

text \<open>
  The argument of \<^verbatim>\<open>parse_match_score\<close> is any Python object. Strings are ASCII; the
  whitespace characters are those of \<^verbatim>\<open>str.isspace\<close> in that range. An exception is the
  left injection of a sum.
\<close>

datatype py_obj = PyStr string | PyInt int | PyFloat rat | PyNaN | PyNone

datatype py_error = ValueError | IndexError

definition is_space :: "char \<Rightarrow> bool" where
  "is_space c \<longleftrightarrow>
     c \<in> set [CHR 0x09, CHR 0x0A, CHR 0x0B, CHR 0x0C, CHR 0x0D,
               CHR 0x1C, CHR 0x1D, CHR 0x1E, CHR 0x1F, CHR 0x20]"

text \<open>\<^verbatim>\<open>s.strip()\<close>\<close>

definition strip :: "string \<Rightarrow> string" where
  "strip s = rev (dropWhile is_space (rev (dropWhile is_space s)))"

text \<open>\<^verbatim>\<open>s.split()\<close>: the maximal runs of characters that are not whitespace.\<close>

fun split_acc :: "string \<Rightarrow> string \<Rightarrow> string list" where
  "split_acc cur [] = (if cur = [] then [] else [cur])"
| "split_acc cur (c # cs) =
     (if is_space c then (if cur = [] then split_acc [] cs else cur # split_acc [] cs)
      else split_acc (cur @ [c]) cs)"

definition split_ws :: "string \<Rightarrow> string list" where
  "split_ws s = split_acc [] s"

text \<open>\<^verbatim>\<open>s.split(sep)\<close> for a separator of one character.\<close>

fun split_on :: "char \<Rightarrow> string \<Rightarrow> string list" where
  "split_on sep [] = [[]]"
| "split_on sep (c # cs) =
     (if c = sep then [] # split_on sep cs
      else (case split_on sep cs of p # ps \<Rightarrow> (c # p) # ps | [] \<Rightarrow> [[c]]))"

text \<open>\<^verbatim>\<open>sub in s\<close>\<close>

fun starts_with :: "string \<Rightarrow> string \<Rightarrow> bool" where
  "starts_with [] s = True"
| "starts_with (p # ps) [] = False"
| "starts_with (p # ps) (c # cs) = (p = c \<and> starts_with ps cs)"

fun contains :: "string \<Rightarrow> string \<Rightarrow> bool" where
  "contains sub [] = (sub = [])"
| "contains sub (c # cs) = (starts_with sub (c # cs) \<or> contains sub cs)"

text \<open>
  \<^verbatim>\<open>int(s)\<close> on a string: surrounding whitespace is ignored, then an optional sign, then
  decimal digits, single underscores allowed between two digits; anything else raises
  \<^verbatim>\<open>ValueError\<close>.
\<close>

definition digit_of :: "char \<Rightarrow> int option" where
  "digit_of c = map_of (zip ''0123456789'' [0, 1, 2, 3, 4, 5, 6, 7, 8, 9]) c"

fun digits_value :: "int \<Rightarrow> string \<Rightarrow> int option" where
  "digits_value acc [] = Some acc"
| "digits_value acc [c] = (case digit_of c of None \<Rightarrow> None | Some d \<Rightarrow> Some (10 * acc + d))"
| "digits_value acc (c # c' # cs) =
     (case digit_of c of
        None \<Rightarrow> None
      | Some d \<Rightarrow>
          if c' = CHR ''_'' then (if cs = [] then None else digits_value (10 * acc + d) cs)
          else digits_value (10 * acc + d) (c' # cs))"

definition py_int :: "string \<Rightarrow> py_error + int" where
  "py_int s =
     (let t = strip s;
          neg = (t \<noteq> [] \<and> hd t = CHR ''-'');
          body = (if t \<noteq> [] \<and> (hd t = CHR ''-'' \<or> hd t = CHR ''+'') then tl t else t)
      in if body = [] then Inl ValueError
         else (case digits_value 0 body of
                 None \<Rightarrow> Inl ValueError
               | Some v \<Rightarrow> Inr (if neg then - v else v)))"

text \<open>\<^verbatim>\<open>xs[i]\<close> for an index that is not negative.\<close>

definition index :: "'a list \<Rightarrow> nat \<Rightarrow> py_error + 'a" where
  "index xs i = (if i < length xs then Inr (xs ! i) else Inl IndexError)"

text \<open>The tallies \<^verbatim>\<open>(w_games, l_games, w_sets, l_sets)\<close>.\<close>

type_synonym tally = "int \<times> int \<times> int \<times> int"

text \<open>The body of the \<^verbatim>\<open>try\<close> block: both conversions, then the four updates.\<close>

definition try_block :: "tally \<Rightarrow> string list \<Rightarrow> py_error + tally" where
  "try_block acc parts =
     (case index parts 0 of
        Inl e \<Rightarrow> Inl e
      | Inr a \<Rightarrow>
          (case py_int a of
             Inl e \<Rightarrow> Inl e
           | Inr w_g \<Rightarrow>
               (case index parts 1 of
                  Inl e \<Rightarrow> Inl e
                | Inr b \<Rightarrow>
                    (case py_int b of
                       Inl e \<Rightarrow> Inl e
                     | Inr l_g \<Rightarrow>
                         (case acc of (w_games, l_games, w_sets, l_sets) \<Rightarrow>
                            Inr (w_games + w_g, l_games + l_g,
                                 (if w_g > l_g then w_sets + 1 else w_sets),
                                 (if w_g > l_g then l_sets else if l_g > w_g then l_sets + 1 else l_sets)))))))"

text \<open>One turn of the loop over the tokens; only \<^verbatim>\<open>ValueError\<close> is caught.\<close>

definition parse_set :: "tally \<Rightarrow> string \<Rightarrow> py_error + tally" where
  "parse_set acc s0 =
     (if contains ''RET'' s0 \<or> contains ''W/O'' s0 \<or> contains ''def.'' s0 then Inr acc
      else (case (if contains ''('' s0 then index (split_on CHR ''('' s0) 0 else Inr s0) of
              Inl e \<Rightarrow> Inl e
            | Inr s \<Rightarrow>
                (let parts = split_on CHR ''-'' s in
                 if length parts \<noteq> 2 then Inr acc
                 else (case try_block acc parts of
                         Inl ValueError \<Rightarrow> Inr acc
                       | Inl e \<Rightarrow> Inl e
                       | Inr acc' \<Rightarrow> Inr acc'))))"

fun parse_sets :: "tally \<Rightarrow> string list \<Rightarrow> py_error + tally" where
  "parse_sets acc [] = Inr acc"
| "parse_sets acc (s # ss) =
     (case parse_set acc s of Inl e \<Rightarrow> Inl e | Inr acc' \<Rightarrow> parse_sets acc' ss)"

definition parse_match_score :: "py_obj \<Rightarrow> py_error + tally" where
  "parse_match_score score_str =
     (case score_str of
        PyStr s \<Rightarrow> if strip s = [] then Inr (0, 0, 0, 0) else parse_sets (0, 0, 0, 0) (split_ws s)
      | _ \<Rightarrow> Inr (0, 0, 0, 0))"

text \<open>
  What one token contributes: nothing when it holds a retirement or walkover marker; else,
  of the text before its first parenthesis, the two game counts when it is two integers joined
  by one hyphen, and nothing otherwise.
\<close>

definition has_marker :: "string \<Rightarrow> bool" where
  "has_marker t = (contains ''RET'' t \<or> contains ''W/O'' t \<or> contains ''def.'' t)"

definition set_games :: "string \<Rightarrow> (int \<times> int) option" where
  "set_games t =
     (if has_marker t then None
      else (case split_on CHR ''-'' (takeWhile (\<lambda>c. c \<noteq> CHR ''('') t) of
              [a, b] \<Rightarrow>
                (case (py_int a, py_int b) of (Inr w, Inr l) \<Rightarrow> Some (w, l) | _ \<Rightarrow> None)
            | _ \<Rightarrow> None))"

text \<open>The tallies of a list of game counts.\<close>

definition tally_of :: "(int \<times> int) list \<Rightarrow> tally" where
  "tally_of gs =
     (sum_list (map fst gs), sum_list (map snd gs),
      int (length (filter (\<lambda>(w, l). w > l) gs)), int (length (filter (\<lambda>(w, l). l > w) gs)))"

section \<open>Notions for stating the properties\<close>

text \<open>
  A surface history reachable by a sequence of \<^verbatim>\<open>update_surface_history\<close> calls, each call
  given by its arguments (player, surface, won), from the empty history.
\<close>

definition apply_update :: "surface_hist \<Rightarrow> string \<times> string \<times> bool \<Rightarrow> surface_hist" where
  "apply_update sh c = (case c of (p, s, w) \<Rightarrow> update_surface_history sh p s w)"

definition surface_after :: "(string \<times> string \<times> bool) list \<Rightarrow> surface_hist" where
  "surface_after calls = foldl apply_update [] calls"

text \<open>The two calls that the loop makes for one row.\<close>

definition row_calls :: "match_row \<Rightarrow> (string \<times> string \<times> bool) list" where
  "row_calls r = [(p1_name r, row_surface r, target r = 1), (p2_name r, row_surface r, target r \<noteq> 1)]"

text \<open>The sums of the counters over all entries of the two histories.\<close>

definition surface_total_sum :: "surface_hist \<Rightarrow> int" where
  "surface_total_sum sh = sum_list (map (\<lambda>(p, d). sum_list (map (\<lambda>(s, e). snd e) d)) sh)"

definition h2h_total_sum :: "h2h_hist \<Rightarrow> int" where
  "h2h_total_sum hh = sum_list (map (\<lambda>(pr, e). fst e + snd e) hh)"





text \<open>Rows for concrete runs: a match of the given day, surface, players and target.\<close>

definition mk_match :: "nat \<Rightarrow> string \<Rightarrow> string \<Rightarrow> string \<Rightarrow> int \<Rightarrow> match_row" where
  "mk_match d s a b t =
     \<lparr>tourney_date = Some d, surface = Some s, p1_name = a, p2_name = b, target = t,
      p1_games_won = 0, p1_games_lost = 0, p1_sets_won = 0, p1_sets_lost = 0,
      p2_games_won = 0, p2_games_lost = 0, p2_sets_won = 0, p2_sets_lost = 0\<rparr>"


text \<open>
  The events of one player in the rows, in row order, each with the index of its row: the
  history of the player that the rolling windows are taken from.
\<close>

definition row_events :: "string \<Rightarrow> nat \<Rightarrow> match_row \<Rightarrow> player_event list" where
  "row_events p i r =
     (if p1_name r = p then [p1_event i r] else []) @ (if p2_name r = p then [p2_event i r] else [])"

definition player_history :: "string \<Rightarrow> match_row list \<Rightarrow> player_event list" where
  "player_history p rows = concat (map (\<lambda>(i, r). row_events p i r) (enumerate 0 rows))"

text \<open>The mean of a metric over the last \<open>window\<close> events of a history.\<close>

definition window_mean :: "nat \<Rightarrow> metric \<Rightarrow> player_event list \<Rightarrow> rat option" where
  "window_mean window m h = mean (map (\<lambda>e. of_int (metric_value m e)) (last_n window h))"

text \<open>
  Frames that \<^verbatim>\<open>compute_rolling_features\<close> is called on: the rows in non-decreasing
  date order, the missing dates last, and the two players of every row different (an
  invariant of the data model).
\<close>

definition date_sorted :: "match_row list \<Rightarrow> bool" where
  "date_sorted rows = sorted (map (\<lambda>r. date_key (tourney_date r)) rows)"

definition distinct_players :: "match_row list \<Rightarrow> bool" where
  "distinct_players rows = list_all (\<lambda>r. p1_name r \<noteq> p2_name r) rows"

text \<open>The event, the name and the columns of one role of a row (\<open>True\<close> for player 1).\<close>

definition role_event :: "bool \<Rightarrow> nat \<Rightarrow> match_row \<Rightarrow> player_event" where
  "role_event role i r = (if role then p1_event i r else p2_event i r)"

definition role_name :: "bool \<Rightarrow> match_row \<Rightarrow> string" where
  "role_name role r = (if role then p1_name r else p2_name r)"

definition role_recent :: "bool \<Rightarrow> rolling_cols \<Rightarrow> nat \<Rightarrow> metric \<Rightarrow> rat option" where
  "role_recent role c = (if role then p1_recent c else p2_recent c)"



text \<open>The frame of \<^verbatim>\<open>tests/test_rolling.py\<close>, the dates as numbers \<^verbatim>\<open>yyyymmdd\<close>.\<close>

definition test_row ::
  "nat \<Rightarrow> string \<Rightarrow> string \<Rightarrow> int \<Rightarrow> int \<Rightarrow> int \<Rightarrow> int \<Rightarrow> int \<Rightarrow> match_row" where
  "test_row d a b t gw gl sw sl =
     \<lparr>tourney_date = Some d, surface = None, p1_name = a, p2_name = b, target = t,
      p1_games_won = gw, p1_games_lost = gl, p1_sets_won = sw, p1_sets_lost = sl,
      p2_games_won = gl, p2_games_lost = gw, p2_sets_won = sl, p2_sets_lost = sw\<rparr>"

definition test_df :: "match_row list" where
  "test_df =
     [test_row 20230101 ''A'' ''X'' 1 12 8 2 0,
      test_row 20230102 ''B'' ''A'' 1 12 0 2 0,
      test_row 20230103 ''A'' ''Y'' 0 6 12 0 2,
      test_row 20230104 ''C'' ''A'' 0 10 15 1 2,
      test_row 20230105 ''A'' ''Z'' 1 12 8 2 0,
      test_row 20230106 ''D'' ''A'' 1 12 8 2 0]"






text \<open>The entry of a (player, surface) pair, for stating properties.\<close>

definition surface_entry :: "surface_hist \<Rightarrow> string \<Rightarrow> string \<Rightarrow> (int \<times> int) option" where
  "surface_entry sh pl surf =
     (case map_of sh pl of None \<Rightarrow> None | Some d \<Rightarrow> map_of d surf)"

section \<open>Properties\<close>

subsection \<open>Surface win percentage\<close>

text \<open>
  C4. \<^verbatim>\<open>get_surface_win_pct(player, surface)\<close> returns wins / total of the (player,
  surface) entry whenever the total is positive, the default 0.5 when the entry is absent or
  its total is not positive, and always 0.5 when the surface is \<^verbatim>\<open>"Unknown"\<close>, whatever the history
  holds.
\<close>

theorem get_surface_win_pct_cases:
  "DEFAULT_WIN_PCT = 1 / 2 \<and>
   get_surface_win_pct sh pl ''Unknown'' = 1 / 2 \<and>
   (surf \<noteq> ''Unknown'' \<longrightarrow> surface_entry sh pl surf = None \<longrightarrow>
      get_surface_win_pct sh pl surf = 1 / 2) \<and>
   (surf \<noteq> ''Unknown'' \<longrightarrow> surface_entry sh pl surf = Some (wins, tot) \<longrightarrow> tot \<le> 0 \<longrightarrow>
      get_surface_win_pct sh pl surf = 1 / 2) \<and>
   (surf \<noteq> ''Unknown'' \<longrightarrow> surface_entry sh pl surf = Some (wins, tot) \<longrightarrow> 0 < tot \<longrightarrow>
      get_surface_win_pct sh pl surf = of_int wins / of_int tot)"
  by (auto simp: get_surface_win_pct_def surface_entry_def DEFAULT_WIN_PCT_def
      split: option.splits)

theorem get_surface_win_pct_cases_witness:
  "get_surface_win_pct [(''A'', [(''Clay'', (3, 4))])] ''A'' ''Unknown'' = 1 / 2 \<and>
   get_surface_win_pct [(''A'', [(''Clay'', (3, 4))])] ''B'' ''Clay'' = 1 / 2 \<and>
   get_surface_win_pct [(''A'', [(''Clay'', (0, 0))])] ''A'' ''Clay'' = 1 / 2 \<and>
   get_surface_win_pct [(''A'', [(''Clay'', (3, 4))])] ''A'' ''Clay'' = 3 / 4"
  using get_surface_win_pct_cases [of "[(''A'', [(''Clay'', (3, 4))])]" "''A''" "''Clay''" 3 4]
    get_surface_win_pct_cases [of "[(''A'', [(''Clay'', (3, 4))])]" "''B''" "''Clay''" 0 0]
    get_surface_win_pct_cases [of "[(''A'', [(''Clay'', (0, 0))])]" "''A''" "''Clay''" 0 0]
  by (simp add: surface_entry_def)

subsection \<open>The surface history\<close>

lemma surface_entry_update:
  "surface_entry (update_surface_history sh p s w) p' s' =
     (if p' = p \<and> s' = s
      then (case surface_entry sh p s of
              None \<Rightarrow> Some (if w then 1 else 0, 1)
            | Some e \<Rightarrow> Some (if w then fst e + 1 else fst e, snd e + 1))
      else surface_entry sh p' s')"
  by (auto simp: surface_entry_def update_surface_history_def Let_def update_conv'
      split: option.splits)

lemma surface_entry_bounds_step:
  assumes "\<And>p s a b. surface_entry sh p s = Some (a, b) \<Longrightarrow> 0 \<le> a \<and> a \<le> b"
  shows "surface_entry (update_surface_history sh p s w) p' s' = Some (a, b) \<Longrightarrow> 0 \<le> a \<and> a \<le> b"
  using assms by (fastforce simp: surface_entry_update split: if_splits option.splits)

lemma surface_after_bounds:
  "surface_entry (surface_after calls) p s = Some (a, b) \<Longrightarrow> 0 \<le> a \<and> a \<le> b"
proof (induction calls arbitrary: p s a b rule: rev_induct)
  case Nil
  then show ?case by (simp add: surface_after_def surface_entry_def)
next
  case (snoc c calls)
  obtain q t w where c: "c = (q, t, w)" by (cases c) auto
  have "surface_entry (update_surface_history (surface_after calls) q t w) p s = Some (a, b)"
    using snoc.prems by (simp add: surface_after_def apply_update_def c)
  then show ?case
    using surface_entry_bounds_step [of "surface_after calls"] snoc.IH by blast
qed

lemma pct_bounds:
  assumes "\<And>a b. surface_entry sh p s = Some (a, b) \<Longrightarrow> 0 \<le> a \<and> a \<le> b"
  shows "0 \<le> get_surface_win_pct sh p s \<and> get_surface_win_pct sh p s \<le> 1"
proof -
  have "get_surface_win_pct sh p s = DEFAULT_WIN_PCT \<or>
    (\<exists>a b. surface_entry sh p s = Some (a, b) \<and> 0 < b \<and> get_surface_win_pct sh p s = of_int a / of_int b)"
    by (auto simp: get_surface_win_pct_def surface_entry_def split: option.splits)
  then show ?thesis
  proof
    assume "get_surface_win_pct sh p s = DEFAULT_WIN_PCT"
    then show ?thesis by (simp add: DEFAULT_WIN_PCT_def)
  next
    assume "\<exists>a b. surface_entry sh p s = Some (a, b) \<and> 0 < b \<and> get_surface_win_pct sh p s = of_int a / of_int b"
    then obtain a b where e: "surface_entry sh p s = Some (a, b)" and b: "0 < b"
      and g: "get_surface_win_pct sh p s = of_int a / of_int b" by blast
    from assms [OF e] have "0 \<le> a" "a \<le> b" by auto
    with b show ?thesis unfolding g by (simp add: divide_le_eq_1)
  qed
qed

lemma sum_list_update:
  "sum_list (map (\<lambda>(k, v). g v) (AList.update k v al)) =
     sum_list (map (\<lambda>(k, v). g v) al) + g v - (case map_of al k of None \<Rightarrow> 0 | Some u \<Rightarrow> g u)"
  for g :: "'v \<Rightarrow> int"
  by (induction al) (auto split: option.splits)

lemma surface_total_sum_update:
  "surface_total_sum (update_surface_history sh p s w) = surface_total_sum sh + 1"
  unfolding surface_total_sum_def update_surface_history_def Let_def
  by (simp add: sum_list_update  split: option.splits)

lemma h2h_total_sum_record:
  "h2h_total_sum (h2h_record hh p1 p2 w) = h2h_total_sum hh + 1"
  unfolding h2h_total_sum_def h2h_record_def Let_def
  by (simp add: sum_list_update  split: option.splits)

subsection \<open>The loop over the rows\<close>

lemma feature_loop_snoc: "feature_loop (rows @ [r]) = feature_step (feature_loop rows) r"
  by (simp add: feature_loop_def)

lemma feature_loop_Nil: "feature_loop [] = init_state"
  by (simp add: feature_loop_def)

lemma surface_history_step:
  "surface_history (feature_step st r) =
     update_surface_history
       (update_surface_history (surface_history st) (p1_name r) (row_surface r) (target r = 1))
       (p2_name r) (row_surface r) (target r \<noteq> 1)"
  by (simp add: feature_step_def Let_def)

lemma h2h_history_step:
  "h2h_history (feature_step st r) = h2h_record (h2h_history st) (p1_name r) (p2_name r) (target r = 1)"
  by (simp add: feature_step_def Let_def)


lemma surface_sum_loop:
  "surface_total_sum (surface_history (feature_loop rows)) = 2 * int (length rows)"
  by (induction rows rule: rev_induct)
    (simp_all add: feature_loop_snoc feature_loop_Nil init_state_def surface_total_sum_def
      surface_history_step surface_total_sum_update [unfolded surface_total_sum_def])

lemma h2h_sum_loop:
  "h2h_total_sum (h2h_history (feature_loop rows)) = int (length rows)"
  by (induction rows rule: rev_induct)
    (simp_all add: feature_loop_snoc feature_loop_Nil init_state_def h2h_total_sum_def
      h2h_history_step h2h_total_sum_record [unfolded h2h_total_sum_def])



lemma surface_step_grows:
  "surface_entry sh p s = Some (a, b) \<Longrightarrow>
   \<exists>a' b'. surface_entry (update_surface_history sh q t w) p s = Some (a', b') \<and> a \<le> a' \<and> b \<le> b'"
  by (auto simp: surface_entry_update)

lemma h2h_record_lookup:
  "map_of (h2h_record hh p1 p2 w) pr =
     (if pr = sorted_pair p1 p2
      then (let e = (case map_of hh pr of None \<Rightarrow> (0, 0) | Some e \<Rightarrow> e)
            in Some (if winner_index p1 p2 w = 0 then (fst e + 1, snd e) else (fst e, snd e + 1)))
      else map_of hh pr)"
  by (simp add: h2h_record_def Let_def update_conv')

lemma h2h_step_grows:
  "map_of hh pr = Some (a, b) \<Longrightarrow>
   \<exists>a' b'. map_of (h2h_record hh p1 p2 w) pr = Some (a', b') \<and> a \<le> a' \<and> b \<le> b'"
  by (auto simp: h2h_record_lookup Let_def)

lemma surface_loop_grows:
  "surface_entry (surface_history (feature_loop rows)) p s = Some (a, b) \<Longrightarrow>
   \<exists>a' b'. surface_entry (surface_history (feature_loop (rows @ rest))) p s = Some (a', b') \<and> a \<le> a' \<and> b \<le> b'"
proof (induction rest rule: rev_induct)
  case Nil
  then show ?case by simp
next
  case (snoc r rest)
  then obtain a1 b1 where 1: "surface_entry (surface_history (feature_loop (rows @ rest))) p s = Some (a1, b1)"
    and le: "a \<le> a1" "b \<le> b1" by blast
  from surface_step_grows [OF 1] obtain a2 b2 where
    2: "surface_entry (update_surface_history (surface_history (feature_loop (rows @ rest)))
          (p1_name r) (row_surface r) (target r = 1)) p s = Some (a2, b2)" and le2: "a1 \<le> a2" "b1 \<le> b2"
    by blast
  from surface_step_grows [OF 2] obtain a3 b3 where
    3: "surface_entry (update_surface_history (update_surface_history (surface_history (feature_loop (rows @ rest)))
          (p1_name r) (row_surface r) (target r = 1)) (p2_name r) (row_surface r) (target r \<noteq> 1)) p s = Some (a3, b3)"
    and le3: "a2 \<le> a3" "b2 \<le> b3"
    by blast
  have "feature_loop (rows @ rest @ [r]) = feature_step (feature_loop (rows @ rest)) r"
    using feature_loop_snoc [of "rows @ rest" r] by simp
  with 3 le le2 le3 show ?case
    by (auto simp: surface_history_step)
qed

lemma h2h_loop_grows:
  "map_of (h2h_history (feature_loop rows)) pr = Some (a, b) \<Longrightarrow>
   \<exists>a' b'. map_of (h2h_history (feature_loop (rows @ rest))) pr = Some (a', b') \<and> a \<le> a' \<and> b \<le> b'"
proof (induction rest rule: rev_induct)
  case Nil
  then show ?case by simp
next
  case (snoc r rest)
  then obtain a1 b1 where 1: "map_of (h2h_history (feature_loop (rows @ rest))) pr = Some (a1, b1)"
    and le: "a \<le> a1" "b \<le> b1" by blast
  from h2h_step_grows [OF 1] obtain a2 b2 where
    2: "map_of (h2h_record (h2h_history (feature_loop (rows @ rest))) (p1_name r) (p2_name r) (target r = 1)) pr = Some (a2, b2)"
    and le2: "a1 \<le> a2" "b1 \<le> b2"
    by blast
  have "feature_loop (rows @ rest @ [r]) = feature_step (feature_loop (rows @ rest)) r"
    using feature_loop_snoc [of "rows @ rest" r] by simp
  with 2 le le2 show ?case
    by (auto simp: h2h_history_step)
qed

subsection \<open>The head-to-head history\<close>


lemma sorted_pair_distinct:
  "p1 \<noteq> p2 \<Longrightarrow> sorted_pair p1 p2 = (if p1 < p2 then (p1, p2) else (p2, p1)) \<and>
     fst (sorted_pair p1 p2) < snd (sorted_pair p1 p2)"
  by (auto simp: sorted_pair_def)






subsection \<open>Claims on the two histories\<close>



lemma add_features_histories:
  "snd (add_features srt df) =
     (surface_history (feature_loop (srt df)), h2h_history (feature_loop (srt df)))"
  by (simp add: add_features_def Let_def)

lemma surface_after_append:
  "surface_after (cs @ ds) = foldl apply_update (surface_after cs) ds"
  by (simp add: surface_after_def)

lemma surface_history_loop_calls:
  "surface_history (feature_loop rows) = surface_after (concat (map row_calls rows))"
  by (induction rows rule: rev_induct)
    (simp_all add: feature_loop_snoc feature_loop_Nil init_state_def surface_after_append
      surface_history_step row_calls_def apply_update_def, simp add: surface_after_def)

text \<open>
  C9. In every surface history reachable by a sequence of \<^verbatim>\<open>update_surface_history\<close>
  calls from the empty history, every (player, surface) entry satisfies
  0 \<le> wins \<le> total, and so \<^verbatim>\<open>get_surface_win_pct\<close> returns a value between 0 and 1
  for every player and surface. The history the loop of \<^verbatim>\<open>add_features\<close> holds after any
  rows is such a history.
\<close>

theorem surface_wins_le_total:
  "(surface_entry (surface_after calls) pl surf = Some (wins, tot) \<longrightarrow> 0 \<le> wins \<and> wins \<le> tot) \<and>
   0 \<le> get_surface_win_pct (surface_after calls) pl surf \<and>
   get_surface_win_pct (surface_after calls) pl surf \<le> 1 \<and>
   surface_history (feature_loop rows) = surface_after (concat (map row_calls rows))"
  using surface_after_bounds [of calls pl surf] pct_bounds [of "surface_after calls" pl surf]
    surface_history_loop_calls [of rows]
  by blast

lemma demo_calls:
  "surface_after [(''A'', ''Clay'', True), (''A'', ''Clay'', False), (''B'', ''Clay'', True)] =
     [(''A'', [(''Clay'', (1, 2))]), (''B'', [(''Clay'', (1, 1))])]"
  by (simp add: surface_after_def apply_update_def update_surface_history_def)

theorem surface_wins_le_total_witness:
  "surface_entry (surface_after [(''A'', ''Clay'', True), (''A'', ''Clay'', False), (''B'', ''Clay'', True)])
      ''A'' ''Clay'' = Some (1, 2) \<and>
   get_surface_win_pct (surface_after [(''A'', ''Clay'', True), (''A'', ''Clay'', False), (''B'', ''Clay'', True)])
      ''A'' ''Clay'' = 1 / 2 \<and>
   0 \<le> get_surface_win_pct (surface_after [(''A'', ''Clay'', True), (''A'', ''Clay'', False), (''B'', ''Clay'', True)])
      ''A'' ''Clay''"
  using surface_wins_le_total [of "[(''A'', ''Clay'', True), (''A'', ''Clay'', False), (''B'', ''Clay'', True)]"
      "''A''" "''Clay''" 1 2 "[]"]
  by (simp add: demo_calls surface_entry_def get_surface_win_pct_def)

text \<open>
  C7. After the loop has processed n rows, the totals of all (player, surface) entries sum to
  2n and the two counters of all pairs of the head-to-head history sum to n. Processing
  further rows removes no entry and decreases no counter. These are the histories that
  \<^verbatim>\<open>add_features\<close> returns.
\<close>

theorem monotonic_state_growth:
  "surface_total_sum (surface_history (feature_loop rows)) = 2 * int (length rows) \<and>
   h2h_total_sum (h2h_history (feature_loop rows)) = int (length rows) \<and>
   (surface_entry (surface_history (feature_loop rows)) pl surf = Some (wins, tot) \<longrightarrow>
      (\<exists>wins' tot'. surface_entry (surface_history (feature_loop (rows @ later))) pl surf = Some (wins', tot') \<and>
         wins \<le> wins' \<and> tot \<le> tot')) \<and>
   (map_of (h2h_history (feature_loop rows)) pr = Some (wins_first, wins_second) \<longrightarrow>
      (\<exists>a b. map_of (h2h_history (feature_loop (rows @ later))) pr = Some (a, b) \<and>
         wins_first \<le> a \<and> wins_second \<le> b)) \<and>
   snd (add_features srt df) =
     (surface_history (feature_loop (srt df)), h2h_history (feature_loop (srt df)))"
  using surface_sum_loop [of rows] h2h_sum_loop [of rows]
    surface_loop_grows [of rows pl surf wins tot later]
    h2h_loop_grows [of rows pr wins_first wins_second later]
    add_features_histories [of srt df]
  by blast

lemma demo_loop_1:
  "surface_history (feature_loop [mk_match 11 ''Clay'' ''A'' ''B'' 1]) =
     [(''A'', [(''Clay'', (1, 1))]), (''B'', [(''Clay'', (0, 1))])] \<and>
   h2h_history (feature_loop [mk_match 11 ''Clay'' ''A'' ''B'' 1]) = [((''A'', ''B''), (1, 0))]"
  by (simp add: feature_loop_def feature_step_def init_state_def mk_match_def row_surface_def
      update_surface_history_def h2h_record_def winner_index_def sorted_pair_def Let_def)

theorem monotonic_state_growth_witness:
  "surface_entry (surface_history (feature_loop [mk_match 11 ''Clay'' ''A'' ''B'' 1])) ''A'' ''Clay'' = Some (1, 1) \<and>
   map_of (h2h_history (feature_loop [mk_match 11 ''Clay'' ''A'' ''B'' 1])) (''A'', ''B'') = Some (1, 0) \<and>
   surface_total_sum (surface_history (feature_loop [mk_match 11 ''Clay'' ''A'' ''B'' 1])) = 2 \<and>
   h2h_total_sum (h2h_history (feature_loop [mk_match 11 ''Clay'' ''A'' ''B'' 1])) = 1 \<and>
   (\<exists>wins' tot'. surface_entry (surface_history
        (feature_loop ([mk_match 11 ''Clay'' ''A'' ''B'' 1] @ [mk_match 12 ''Clay'' ''B'' ''A'' 0]))) ''A'' ''Clay'' =
        Some (wins', tot') \<and> 1 \<le> wins' \<and> 1 \<le> tot')"
  using monotonic_state_growth [of "[mk_match 11 ''Clay'' ''A'' ''B'' 1]" "''A''" "''Clay''" 1 1
      "[mk_match 12 ''Clay'' ''B'' ''A'' 0]" "(''A'', ''B'')" 1 0 id "[]"]
  by (simp add: demo_loop_1 surface_entry_def)




lemma date_sortedD:
  "date_sorted xs \<Longrightarrow> i \<le> j \<Longrightarrow> j < length xs \<Longrightarrow>
   date_key (tourney_date (xs ! i)) \<le> date_key (tourney_date (xs ! j))"
  unfolding date_sorted_def
  using sorted_nth_mono [of "map (\<lambda>r. date_key (tourney_date r)) xs" i j] by simp









subsection \<open>The sorted player frame and the rolling windows\<close>

lemma map_enumerate_upt:
  "map (\<lambda>(i, r). f i r) (enumerate 0 xs) = map (\<lambda>i. f i (xs ! i)) [0..<length xs]"
  by (rule nth_equalityI) (simp_all add: nth_enumerate_eq)

lemma player_df_upt:
  "player_df xs =
     map (\<lambda>i. p1_event i (xs ! i)) [0..<length xs] @ map (\<lambda>i. p2_event i (xs ! i)) [0..<length xs]"
  by (simp add: player_df_def map_enumerate_upt)

lemma player_history_upt:
  "player_history p xs = concat (map (\<lambda>i. row_events p i (xs ! i)) [0..<length xs])"
  by (simp add: player_history_def map_enumerate_upt)

lemma player_history_take:
  "k \<le> length xs \<Longrightarrow>
   player_history p (take k xs) = concat (map (\<lambda>i. row_events p i (xs ! i)) [0..<k])"
proof -
  assume k: "k \<le> length xs"
  then have len: "length (take k xs) = k" by simp
  have eq: "map (\<lambda>i. row_events p i (take k xs ! i)) [0..<k] = map (\<lambda>i. row_events p i (xs ! i)) [0..<k]"
    by (rule map_cong) simp_all
  show ?thesis unfolding player_history_upt len eq ..
qed

lemma in_player_df:
  "e \<in> set (player_df xs) \<longleftrightarrow>
     (\<exists>i<length xs. e = p1_event i (xs ! i) \<or> e = p2_event i (xs ! i))"
  by (auto simp: player_df_upt)

lemma in_player_history:
  "e \<in> set (player_history p xs) \<longleftrightarrow>
     (\<exists>i<length xs. (p1_name (xs ! i) = p \<and> e = p1_event i (xs ! i)) \<or>
                     (p2_name (xs ! i) = p \<and> e = p2_event i (xs ! i)))"
  by (auto simp: player_history_upt row_events_def split: if_splits)

lemma event_fields [simp]:
  "player (p1_event i r) = p1_name r" "player (p2_event i r) = p2_name r"
  "match_index (p1_event i r) = i" "match_index (p2_event i r) = i"
  "is_p1 (p1_event i r)" "\<not> is_p1 (p2_event i r)"
  "date (p1_event i r) = tourney_date r" "date (p2_event i r) = tourney_date r"
  by (simp_all add: p1_event_def p2_event_def)

lemma event_key_simps [simp]:
  "event_key (p1_event i r) = (p1_name r, date_key (tourney_date r), i)"
  "event_key (p2_event i r) = (p2_name r, date_key (tourney_date r), i)"
  by (simp_all add: event_key_def)

lemma distinct_playersD:
  "distinct_players xs \<Longrightarrow> i < length xs \<Longrightarrow> p1_name (xs ! i) \<noteq> p2_name (xs ! i)"
  by (simp add: distinct_players_def list_all_length)

lemma event_key_inj:
  assumes "distinct_players xs" "e \<in> set (player_df xs)" "e' \<in> set (player_df xs)"
    "event_key e = event_key e'"
  shows "e = e'"
proof -
  from assms(2) obtain i where i: "i < length xs" "e = p1_event i (xs ! i) \<or> e = p2_event i (xs ! i)"
    by (auto simp: in_player_df)
  from assms(3) obtain j where j: "j < length xs" "e' = p1_event j (xs ! j) \<or> e' = p2_event j (xs ! j)"
    by (auto simp: in_player_df)
  from assms(4) i j have ij: "i = j" by auto
  from distinct_playersD [OF assms(1) i(1)] assms(4) i j show ?thesis
    unfolding ij by auto
qed

lemma distinct_player_df: "distinct (player_df xs)"
proof -
  have "inj_on (\<lambda>i. p1_event i (xs ! i)) {0..<length xs}"
    by (rule inj_onI) (metis event_fields(3))
  moreover have "inj_on (\<lambda>i. p2_event i (xs ! i)) {0..<length xs}"
    by (rule inj_onI) (metis event_fields(4))
  moreover have "p1_event i (xs ! i) \<noteq> p2_event j (xs ! j)" for i j
    by (metis event_fields(5) event_fields(6))
  ultimately show ?thesis
    by (auto simp: player_df_upt distinct_map)
qed

lemma distinct_keys_player_df:
  "distinct_players xs \<Longrightarrow> distinct (map event_key (player_df xs))"
  using event_key_inj [of xs] distinct_player_df [of xs]
  by (auto simp: distinct_map intro!: inj_onI)

lemma distinct_keys_sorted:
  "distinct_players xs \<Longrightarrow> distinct (map event_key (sorted_player_df xs))"
proof -
  assume "distinct_players xs"
  then have "distinct (map event_key (player_df xs))" by (rule distinct_keys_player_df)
  moreover have "mset (map event_key (sorted_player_df xs)) = mset (map event_key (player_df xs))"
    by (simp add: sorted_player_df_def)
  ultimately show ?thesis
    by (metis mset_eq_imp_distinct_iff)
qed

lemma sorted_keys_sorted: "sorted (map event_key (sorted_player_df xs))"
  by (simp add: sorted_player_df_def)

lemma take_eq_filter_less:
  "sorted (map f l) \<Longrightarrow> distinct (map f l) \<Longrightarrow> j < length l \<Longrightarrow>
   take j l = filter (\<lambda>x. f x < f (l ! j)) l"
proof (induction l arbitrary: j)
  case Nil
  then show ?case by simp
next
  case (Cons x l)
  show ?case
  proof (cases j)
    case 0
    have "\<forall>y\<in>set l. \<not> f y < f x" using Cons.prems(1) by (auto simp: not_less)
    then show ?thesis using 0 by (simp add: filter_empty_conv)
  next
    case (Suc j')
    then have j': "j' < length l" using Cons.prems(3) by simp
    have "f x \<le> f (l ! j')" "f x \<noteq> f (l ! j')"
      using Cons.prems(1,2) j' by (auto simp: image_iff)
    then have "f x < f (l ! j')" by simp
    moreover have "take j' l = filter (\<lambda>y. f y < f (l ! j')) l"
      using Cons.IH [of j'] Cons.prems j' by simp
    ultimately show ?thesis using Suc by simp
  qed
qed

lemma triple_less_iff:
  "(p, a, i) < (p, b, k) \<longleftrightarrow> a < b \<or> (a = b \<and> i < k)"
  for p :: "'p::linorder" and a b :: "'d::linorder" and i k :: nat
  by (auto simp: less_prod_def)

lemma triple_le_iff:
  "(p, a, i) \<le> (p, b, k) \<longleftrightarrow> a < b \<or> (a = b \<and> i \<le> k)"
  for p :: "'p::linorder" and a b :: "'d::linorder" and i k :: nat
  by (auto simp: less_eq_prod_def less_prod_def)

lemma key_less_iff:
  assumes ds: "date_sorted xs" and dp: "distinct_players xs" and k: "k < length xs"
    and e': "e' \<in> set (player_df xs)" and pe': "player e' = player e"
    and e: "e = p1_event k (xs ! k) \<or> e = p2_event k (xs ! k)"
  shows "event_key e' < event_key e \<longleftrightarrow> match_index e' < k"
proof -
  from e' obtain i where i: "i < length xs" "e' = p1_event i (xs ! i) \<or> e' = p2_event i (xs ! i)"
    by (auto simp: in_player_df)
  have ke': "event_key e' = (player e, date_key (tourney_date (xs ! i)), i)"
    using i(2) pe' by auto
  have ke: "event_key e = (player e, date_key (tourney_date (xs ! k)), k)"
    using e by auto
  have mi: "match_index e' = i" using i(2) by auto
  consider "i < k" | "i = k" | "k < i" by linarith
  then show ?thesis
  proof cases
    case 1
    then have "date_key (tourney_date (xs ! i)) \<le> date_key (tourney_date (xs ! k))"
      using date_sortedD [OF ds _ k, of i] by simp
    with 1 show ?thesis unfolding ke ke' mi triple_less_iff by auto
  next
    case 2
    then show ?thesis unfolding ke ke' mi triple_less_iff by simp
  next
    case 3
    then have "date_key (tourney_date (xs ! k)) \<le> date_key (tourney_date (xs ! i))"
      using date_sortedD [OF ds _ i(1), of k] by simp
    with 3 show ?thesis unfolding ke ke' mi triple_less_iff by auto
  qed
qed

lemma mset_filter_two_maps:
  "mset (filter Q (map f1 is @ map f2 is)) = mset (concat (map (\<lambda>i. filter Q [f1 i, f2 i]) is))"
  by (induction "is") auto

lemma concat_map_guard:
  "k \<le> n \<Longrightarrow> concat (map (\<lambda>i. if i < k then g i else []) [0..<n]) = concat (map g [0..<k])"
proof -
  assume k: "k \<le> n"
  then have split: "[0..<n] = [0..<k] @ [k..<n]"
    by (metis le_add_diff_inverse upt_add_eq_append zero_le)
  have a: "map (\<lambda>i. if i < k then g i else []) [0..<k] = map g [0..<k]"
    by (rule map_cong) simp_all
  have b: "concat (map (\<lambda>i. if i < k then g i else []) [k..<n]) = []"
    by simp
  show ?thesis unfolding split map_append concat_append a b by simp
qed

lemma mset_earlier_events:
  assumes "k \<le> length xs"
  shows "mset (filter (\<lambda>e'. player e' = p \<and> match_index e' < k) (player_df xs)) =
         mset (player_history p (take k xs))"
proof -
  have "filter (\<lambda>e'. player e' = p \<and> match_index e' < k) [p1_event i (xs ! i), p2_event i (xs ! i)] =
        (if i < k then row_events p i (xs ! i) else [])" for i
    by (simp add: row_events_def)
  then have "mset (filter (\<lambda>e'. player e' = p \<and> match_index e' < k) (player_df xs)) =
      mset (concat (map (\<lambda>i. if i < k then row_events p i (xs ! i) else []) [0..<length xs]))"
    unfolding player_df_upt mset_filter_two_maps by simp
  also have "\<dots> = mset (concat (map (\<lambda>i. row_events p i (xs ! i)) [0..<k]))"
    by (simp only: concat_map_guard [OF assms])
  finally show ?thesis
    by (simp add: player_history_take [OF assms])
qed

lemma sorted_player_history:
  assumes ds: "date_sorted xs" and k: "k \<le> length xs"
  shows "sorted (map event_key (player_history p (take k xs)))"
  using k
proof (induction k)
  case 0
  then show ?case by (simp add: player_history_def)
next
  case (Suc k)
  then have k: "k < length xs" by simp
  have hist: "player_history p (take (Suc k) xs) =
      player_history p (take k xs) @ row_events p k (xs ! k)"
    using Suc.prems k by (simp add: player_history_take)
  have le: "event_key a \<le> event_key b"
    if "a \<in> set (player_history p (take k xs))" "b \<in> set (row_events p k (xs ! k))" for a b
  proof -
    from that(1) obtain i where i: "i < k"
      and a: "(p1_name (xs ! i) = p \<and> a = p1_event i (xs ! i)) \<or> (p2_name (xs ! i) = p \<and> a = p2_event i (xs ! i))"
      using k by (auto simp: in_player_history)
    have ka: "event_key a = (p, date_key (tourney_date (xs ! i)), i)" using a by auto
    have kb: "event_key b = (p, date_key (tourney_date (xs ! k)), k)"
      using that(2) by (auto simp: row_events_def split: if_splits)
    have "date_key (tourney_date (xs ! i)) \<le> date_key (tourney_date (xs ! k))"
      using date_sortedD [OF ds _ k, of i] i by simp
    with i show ?thesis unfolding ka kb triple_le_iff by auto
  qed
  have "sorted (map event_key (row_events p k (xs ! k)))"
    by (simp add: row_events_def)
  with Suc.IH k le show ?case
    unfolding hist by (auto simp: sorted_append)
qed

lemma sort_earlier_events:
  assumes ds: "date_sorted xs" and dp: "distinct_players xs" and k: "k \<le> length xs"
  shows "sort_key event_key (filter (\<lambda>e'. player e' = p \<and> match_index e' < k) (player_df xs)) =
         player_history p (take k xs)"
proof (rule sort_key_inj_key_eq)
  show "mset (filter (\<lambda>e'. player e' = p \<and> match_index e' < k) (player_df xs)) =
        mset (player_history p (take k xs))"
    by (rule mset_earlier_events [OF k])
  show "inj_on event_key (set (filter (\<lambda>e'. player e' = p \<and> match_index e' < k) (player_df xs)))"
    using event_key_inj [OF dp] by (auto intro!: inj_onI)
  show "sorted (map event_key (player_history p (take k xs)))"
    by (rule sorted_player_history [OF ds k])
qed

lemma group_before_history:
  assumes ds: "date_sorted xs" and dp: "distinct_players xs" and k: "k < length xs"
    and j: "j < length (sorted_player_df xs)"
    and e: "sorted_player_df xs ! j = p1_event k (xs ! k) \<or> sorted_player_df xs ! j = p2_event k (xs ! k)"
  shows "group_before (sorted_player_df xs) j =
         player_history (player (sorted_player_df xs ! j)) (take k xs)"
proof -
  let ?pdf = "sorted_player_df xs"
  let ?e = "?pdf ! j"
  let ?p = "player ?e"
  have "group_before ?pdf j = filter (\<lambda>e'. player e' = ?p) (filter (\<lambda>e'. event_key e' < event_key ?e) ?pdf)"
    unfolding group_before_def
    using take_eq_filter_less [OF sorted_keys_sorted distinct_keys_sorted [OF dp] j] by simp
  also have "\<dots> = filter (\<lambda>e'. event_key e' < event_key ?e \<and> player e' = ?p) ?pdf"
    by simp
  also have "\<dots> = sort_key event_key (filter (\<lambda>e'. event_key e' < event_key ?e \<and> player e' = ?p) (player_df xs))"
    by (simp add: sorted_player_df_def filter_sort)
  also have "filter (\<lambda>e'. event_key e' < event_key ?e \<and> player e' = ?p) (player_df xs) =
      filter (\<lambda>e'. player e' = ?p \<and> match_index e' < k) (player_df xs)"
    by (rule filter_cong) (use key_less_iff [OF ds dp k _ _ e] in auto)
  also have "sort_key event_key \<dots> = player_history ?p (take k xs)"
    using sort_earlier_events [OF ds dp] k by simp
  finally show ?thesis .
qed

lemma distinct_sorted_player_df: "distinct (sorted_player_df xs)"
  by (simp add: sorted_player_df_def distinct_player_df)

lemma set_sorted_player_df: "set (sorted_player_df xs) = set (player_df xs)"
  by (simp add: sorted_player_df_def)

lemma length_sorted_player_df: "length (sorted_player_df xs) = 2 * length xs"
  by (simp add: sorted_player_df_def player_df_upt)

lemma role_event_unique:
  "e \<in> set (player_df xs) \<Longrightarrow> is_p1 e = role \<Longrightarrow> match_index e = k \<Longrightarrow> e = role_event role k (xs ! k)"
  by (auto simp: in_player_df role_event_def)

lemma role_event_in: "k < length xs \<Longrightarrow> role_event role k (xs ! k) \<in> set (player_df xs)"
  by (auto simp: in_player_df role_event_def)

lemma role_event_fields [simp]:
  "is_p1 (role_event role k r) = role" "match_index (role_event role k r) = k"
  "player (role_event role k r) = role_name role r"
  by (simp_all add: role_event_def role_name_def)

lemma length_filled_col [simp]: "length (filled_col pdf w m) = length pdf"
  by (simp add: filled_col_def Let_def fillna_def recent_col_def)

lemma event_position:
  assumes "k < length xs"
  obtains j where "j < length (sorted_player_df xs)" "sorted_player_df xs ! j = role_event role k (xs ! k)"
  using role_event_in [OF assms, of role] set_sorted_player_df [of xs]
  by (metis in_set_conv_nth)

lemma joined_value_position:
  assumes j: "j < length (sorted_player_df xs)"
    and e: "sorted_player_df xs ! j = role_event role k (xs ! k)"
  shows "joined_value (sorted_player_df xs) role w m k = filled_col (sorted_player_df xs) w m ! j"
proof -
  let ?pdf = "sorted_player_df xs"
  let ?col = "filled_col ?pdf w m"
  let ?P = "\<lambda>(e, v). is_p1 e = role \<and> match_index e = k"
  have len: "length (zip ?pdf ?col) = length ?pdf" by simp
  have Pj: "?P (zip ?pdf ?col ! j)" using j e by simp
  have first: "\<not> ?P (zip ?pdf ?col ! i)" if "i < j" for i
  proof
    assume P: "?P (zip ?pdf ?col ! i)"
    have i: "i < length ?pdf" using that j by simp
    then have "?pdf ! i \<in> set (player_df xs)"
      using set_sorted_player_df [of xs] nth_mem by blast
    with P i have "?pdf ! i = role_event role k (xs ! k)"
      by (auto intro: role_event_unique)
    with e have "?pdf ! i = ?pdf ! j" by simp
    with distinct_sorted_player_df [of xs] i j that show False
      by (simp add: nth_eq_iff_index_eq)
  qed
  have "find ?P (zip ?pdf ?col) = Some (zip ?pdf ?col ! j)"
    unfolding find_Some_iff using j Pj first len by (intro exI [of _ j]) auto
  then show ?thesis
    using j by (simp add: joined_value_def)
qed

lemma filled_col_nth:
  "j < length pdf \<Longrightarrow>
   filled_col pdf w m ! j =
     (case rolling_stat pdf w m j of
        Some v \<Rightarrow> Some v
      | None \<Rightarrow> if m = Won then Some DEFAULT_WIN_PCT else col_mean (recent_col pdf w m))"
  by (simp add: filled_col_def Let_def fillna_def recent_col_def split: option.splits)

lemma rolling_stat_history:
  assumes ds: "date_sorted xs" and dp: "distinct_players xs" and k: "k < length xs"
    and j: "j < length (sorted_player_df xs)"
    and e: "sorted_player_df xs ! j = role_event role k (xs ! k)"
  shows "rolling_stat (sorted_player_df xs) w m j =
         window_mean w m (player_history (role_name role (xs ! k)) (take k xs))"
proof -
  have e': "sorted_player_df xs ! j = p1_event k (xs ! k) \<or> sorted_player_df xs ! j = p2_event k (xs ! k)"
    using e by (simp add: role_event_def split: if_splits)
  show ?thesis
    unfolding rolling_stat_def window_mean_def group_before_history [OF ds dp k j e']
    by (simp add: e)
qed

lemma joined_value_history:
  assumes ds: "date_sorted xs" and dp: "distinct_players xs" and k: "k < length xs"
  shows "joined_value (sorted_player_df xs) role w m k =
     (case window_mean w m (player_history (role_name role (xs ! k)) (take k xs)) of
        Some v \<Rightarrow> Some v
      | None \<Rightarrow> if m = Won then Some DEFAULT_WIN_PCT
                else col_mean (recent_col (sorted_player_df xs) w m))"
proof -
  obtain j where j: "j < length (sorted_player_df xs)"
    and e: "sorted_player_df xs ! j = role_event role k (xs ! k)"
    using event_position [OF k] by blast
  show ?thesis
    unfolding joined_value_position [OF j e] filled_col_nth [OF j]
      rolling_stat_history [OF ds dp k j e] ..
qed

lemma compute_rolling_features_nth:
  "k < length xs \<Longrightarrow>
   p1_recent (compute_rolling_features xs ! k) w m =
     (if w \<in> set RECENT_FORM_WINDOWS then joined_value (sorted_player_df xs) True w m k else None) \<and>
   p2_recent (compute_rolling_features xs ! k) w m =
     (if w \<in> set RECENT_FORM_WINDOWS then joined_value (sorted_player_df xs) False w m k else None)"
  by (simp add: compute_rolling_features_def Let_def)

subsection \<open>Window correctness\<close>

lemma role_recent_nth:
  "k < length xs \<Longrightarrow> w \<in> set RECENT_FORM_WINDOWS \<Longrightarrow>
   role_recent role (compute_rolling_features xs ! k) w m = joined_value (sorted_player_df xs) role w m k"
  by (simp add: role_recent_def compute_rolling_features_nth)

lemma role_recent_history:
  assumes "date_sorted xs" "distinct_players xs" "k < length xs" "w \<in> set RECENT_FORM_WINDOWS"
  shows "role_recent role (compute_rolling_features xs ! k) w m =
     (case window_mean w m (player_history (role_name role (xs ! k)) (take k xs)) of
        Some v \<Rightarrow> Some v
      | None \<Rightarrow> if m = Won then Some DEFAULT_WIN_PCT
                else col_mean (recent_col (sorted_player_df xs) w m))"
  using assms by (simp add: role_recent_nth joined_value_history)

lemma window_mean_values:
  assumes vs: "map (metric_value m) h = vs" and w: "length vs \<le> w" and ne: "vs \<noteq> []"
  shows "window_mean w m h = Some (of_int (sum_list vs) / of_nat (length vs))"
proof -
  have len: "length h = length vs" using vs by auto
  have l: "last_n w h = h" using w len by (simp add: last_n_def)
  have "map (\<lambda>e. of_int (metric_value m e)) h = map of_int (map (metric_value m) h)"
    by simp
  then have m: "map (\<lambda>e. of_int (metric_value m e)) h = map of_int vs"
    unfolding vs .
  have s: "sum_list (map of_int vs) = (of_int (sum_list vs) :: rat)"
    by (induction vs) simp_all
  have n: "map rat_of_int vs \<noteq> []" using ne by simp
  show ?thesis
    unfolding window_mean_def l m mean_def s using n by simp
qed

lemma metric_value_fun:
  "metric_value Won = won" "metric_value GamesWon = games_won" "metric_value GamesLost = games_lost"
  "metric_value SetsWon = sets_won" "metric_value SetsLost = sets_lost"
  by (rule ext, simp)+

text \<open>
  C6. Window correctness. In a frame in date order whose rows each have two different
  players, let the events of player A before the row at position k be five, with outcomes
  win, loss, loss, win, win, games won 12, 0, 6, 15, 12 and games lost 8, 12, 12, 10, 8, and
  let A play the row at k in either role. Then the 5-window features joined to that row for
  A's role are: recent win rate 3/5, recent games-won average 9, recent games-lost average 10.
  The frame of the test is such a frame, with A as player 2 of its sixth row.
\<close>

theorem window_correctness:
  assumes "date_sorted df" and "distinct_players df" and "k < length df"
    and "role_name role (df ! k) = a"
    and "map won (player_history a (take k df)) = [1, 0, 0, 1, 1]"
    and "map games_won (player_history a (take k df)) = [12, 0, 6, 15, 12]"
    and "map games_lost (player_history a (take k df)) = [8, 12, 12, 10, 8]"
  shows "role_recent role (compute_rolling_features df ! k) 5 Won = Some (3 / 5) \<and>
         role_recent role (compute_rolling_features df ! k) 5 GamesWon = Some 9 \<and>
         role_recent role (compute_rolling_features df ! k) 5 GamesLost = Some 10"
proof -
  have w: "5 \<in> set RECENT_FORM_WINDOWS" by (simp add: RECENT_FORM_WINDOWS_def)
  have 1: "window_mean 5 Won (player_history a (take k df)) = Some (3 / 5)"
    using window_mean_values [of Won "player_history a (take k df)" "[1, 0, 0, 1, 1]" 5] assms(5)
    by (simp add: metric_value_fun)
  have 2: "window_mean 5 GamesWon (player_history a (take k df)) = Some 9"
    using window_mean_values [of GamesWon "player_history a (take k df)" "[12, 0, 6, 15, 12]" 5] assms(6)
    by (simp add: metric_value_fun)
  have 3: "window_mean 5 GamesLost (player_history a (take k df)) = Some 10"
    using window_mean_values [of GamesLost "player_history a (take k df)" "[8, 12, 12, 10, 8]" 5] assms(7)
    by (simp add: metric_value_fun)
  show ?thesis
    using role_recent_history [OF assms(1) assms(2) assms(3) w, of role] 1 2 3
    by (simp add: assms(4))
qed

lemma test_df_well_formed: "date_sorted test_df \<and> distinct_players test_df"
  by (simp add: date_sorted_def distinct_players_def test_df_def test_row_def date_key_def)

theorem window_correctness_witness:
  "date_sorted test_df \<and> distinct_players test_df \<and> 5 < length test_df \<and>
   p2_name (test_df ! 5) = ''A'' \<and>
   map won (player_history ''A'' (take 5 test_df)) = [1, 0, 0, 1, 1] \<and>
   map games_won (player_history ''A'' (take 5 test_df)) = [12, 0, 6, 15, 12] \<and>
   map games_lost (player_history ''A'' (take 5 test_df)) = [8, 12, 12, 10, 8] \<and>
   p2_recent (compute_rolling_features test_df ! 5) 5 Won = Some (3 / 5) \<and>
   p2_recent (compute_rolling_features test_df ! 5) 5 GamesWon = Some 9 \<and>
   p2_recent (compute_rolling_features test_df ! 5) 5 GamesLost = Some 10"
proof -
  have h: "map won (player_history ''A'' (take 5 test_df)) = [1, 0, 0, 1, 1]"
    "map games_won (player_history ''A'' (take 5 test_df)) = [12, 0, 6, 15, 12]"
    "map games_lost (player_history ''A'' (take 5 test_df)) = [8, 12, 12, 10, 8]"
    by (simp_all add: player_history_def test_df_def test_row_def row_events_def
        enumerate_eq_zip upt_rec p1_event_def p2_event_def)
  have k: "5 < length test_df" by (simp add: test_df_def)
  have n: "role_name False (test_df ! 5) = ''A''" "p2_name (test_df ! 5) = ''A''"
    by (simp_all add: role_name_def test_df_def test_row_def)
  from window_correctness [OF conjunct1 [OF test_df_well_formed] conjunct2 [OF test_df_well_formed] k n(1) h]
  show ?thesis
    using test_df_well_formed k n(2) h by (simp add: role_recent_def)
qed

text \<open>The same values by running the model on the frame of the test.\<close>

lemma test_df_sorted_player_df:
  "sorted_player_df test_df =
   [p1_event 0 (test_df ! 0), p2_event 1 (test_df ! 1), p1_event 2 (test_df ! 2),
    p2_event 3 (test_df ! 3), p1_event 4 (test_df ! 4), p2_event 5 (test_df ! 5),
    p1_event 1 (test_df ! 1), p1_event 3 (test_df ! 3), p1_event 5 (test_df ! 5),
    p2_event 0 (test_df ! 0), p2_event 2 (test_df ! 2), p2_event 4 (test_df ! 4)]"
  by (simp add: sorted_player_df_def player_df_def test_df_def test_row_def enumerate_eq_zip upt_rec
      p1_event_def p2_event_def event_key_def date_key_def)

lemma test_rolling_features_values:
  "p2_recent (compute_rolling_features test_df ! 5) 5 Won = Some (3 / 5) \<and>
   p2_recent (compute_rolling_features test_df ! 5) 5 GamesWon = Some 9 \<and>
   p2_recent (compute_rolling_features test_df ! 5) 5 GamesLost = Some 10 \<and>
   p1_recent (compute_rolling_features test_df ! 0) 5 Won = Some (1 / 2)"
  unfolding compute_rolling_features_def Let_def test_df_sorted_player_df
  by (simp add: test_df_def test_row_def p1_event_def p2_event_def RECENT_FORM_WINDOWS_def
      joined_value_def filled_col_def recent_col_def rolling_stat_def group_before_def last_n_def
      mean_def fillna_def col_mean_def DEFAULT_WIN_PCT_def upt_rec List.map_filter_def)

subsection \<open>Cold start\<close>














subsection \<open>No leakage\<close>











subsection \<open>The processing order\<close>









subsection \<open>Score parsing\<close>

lemma split_on_hd: "\<exists>ps. split_on sep s = takeWhile (\<lambda>c. c \<noteq> sep) s # ps"
  by (induction s) auto

lemma index_split_on_0: "index (split_on sep s) 0 = Inr (takeWhile (\<lambda>c. c \<noteq> sep) s)"
  using split_on_hd [of sep s] by (auto simp: index_def)

lemma contains_single: "contains [c] s \<longleftrightarrow> c \<in> set s"
  by (induction s) auto

lemma before_paren:
  "(if contains ''('' s then index (split_on CHR ''('' s) 0 else Inr s) =
     Inr (takeWhile (\<lambda>c. c \<noteq> CHR ''('') s)"
proof (cases "contains ''('' s")
  case True
  then show ?thesis by (simp add: index_split_on_0)
next
  case False
  have tw: "takeWhile (\<lambda>c. c \<noteq> CHR ''('') s = s"
    using False by (auto simp: contains_single takeWhile_eq_all_conv)
  show ?thesis unfolding tw using False by simp
qed

lemma py_int_error: "py_int s = Inl e \<Longrightarrow> e = ValueError"
  by (auto simp: py_int_def Let_def split: if_splits option.splits)

lemma length_2: "length xs = 2 \<Longrightarrow> \<exists>a b. xs = [a, b]"
  by (cases xs; cases "tl xs") auto

lemma parse_set_games:
  "parse_set (wg, lg, ws, ls) t =
     Inr (case set_games t of
            None \<Rightarrow> (wg, lg, ws, ls)
          | Some (w, l) \<Rightarrow>
              (wg + w, lg + l, ws + (if w > l then 1 else 0), ls + (if l > w then 1 else 0)))"
proof (cases "has_marker t")
  case True
  then show ?thesis by (auto simp: parse_set_def set_games_def has_marker_def)
next
  case False
  let ?parts = "split_on CHR ''-'' (takeWhile (\<lambda>c. c \<noteq> CHR ''('') t)"
  show ?thesis
  proof (cases "length ?parts = 2")
    case ne: False
    then have "set_games t = None"
      using False by (auto simp: set_games_def split: list.splits)
    with False ne show ?thesis
      by (simp add: parse_set_def has_marker_def before_paren Let_def)
  next
    case True
    then obtain a b where ab: "?parts = [a, b]" using length_2 by blast
    show ?thesis
    proof (cases "py_int a")
      case (Inl e)
      then have "e = ValueError" by (rule py_int_error)
      with Inl False ab show ?thesis
        by (simp add: parse_set_def has_marker_def before_paren Let_def try_block_def index_def set_games_def)
    next
      case a: (Inr w)
      show ?thesis
      proof (cases "py_int b")
        case (Inl e)
        then have "e = ValueError" by (rule py_int_error)
        with Inl a False ab show ?thesis
          by (simp add: parse_set_def has_marker_def before_paren Let_def try_block_def index_def set_games_def)
      next
        case (Inr l)
        with a False ab show ?thesis
          by (simp add: parse_set_def has_marker_def before_paren Let_def try_block_def index_def set_games_def)
      qed
    qed
  qed
qed

lemma tally_of_Nil: "tally_of [] = (0, 0, 0, 0)"
  by (simp add: tally_of_def)

lemma parse_sets_games:
  "parse_sets (wg, lg, ws, ls) ts =
     (case tally_of (List.map_filter set_games ts) of
        (w, l, sw, sl) \<Rightarrow> Inr (wg + w, lg + l, ws + sw, ls + sl))"
proof (induction ts arbitrary: wg lg ws ls)
  case Nil
  then show ?case by (simp add: tally_of_def)
next
  case (Cons t ts)
  show ?case
  proof (cases "set_games t")
    case None
    then show ?thesis
      using Cons.IH [of wg lg ws ls] by (simp add: parse_set_games)
  next
    case (Some g)
    obtain w l where g: "g = (w, l)" by (cases g)
    show ?thesis
      using Cons.IH [of "wg + w" "lg + l" "ws + (if w > l then 1 else 0)" "ls + (if l > w then 1 else 0)"]
      by (simp add: parse_set_games Some g tally_of_def)
  qed
qed

lemma split_acc_spaces: "\<forall>c\<in>set s. is_space c \<Longrightarrow> split_acc [] s = []"
  by (induction s) auto

lemma strip_empty: "strip s = [] \<Longrightarrow> split_ws s = []"
proof -
  assume "strip s = []"
  then have "dropWhile is_space s = []"
    by (simp add: strip_def dropWhile_eq_Nil_conv) (metis dropWhile_eq_Nil_conv set_rev rev_is_Nil_conv dropWhile_idem)
  then show ?thesis
    by (simp add: split_ws_def split_acc_spaces dropWhile_eq_Nil_conv)
qed

lemma parse_match_score_str:
  "parse_match_score (PyStr s) = Inr (tally_of (List.map_filter set_games (split_ws s)))"
proof (cases "strip s = []")
  case True
  then show ?thesis
    by (simp add: parse_match_score_def strip_empty tally_of_def)
next
  case False
  obtain w l sw sl where t: "tally_of (List.map_filter set_games (split_ws s)) = (w, l, sw, sl)"
    by (cases "tally_of (List.map_filter set_games (split_ws s))") auto
  show ?thesis
    using False by (simp add: parse_match_score_def parse_sets_games t)
qed

lemma starts_with_append: "starts_with sub xs \<Longrightarrow> starts_with sub (xs @ ys)"
  by (induction sub xs rule: starts_with.induct) auto

lemma contains_append: "contains sub xs \<Longrightarrow> contains sub (xs @ ys)"
proof (induction xs)
  case Nil
  then show ?case by (cases ys) auto
next
  case (Cons x xs)
  then show ?case
    using starts_with_append [of sub "x # xs" ys] by auto
qed

lemma has_marker_prefix: "has_marker (takeWhile P t) \<Longrightarrow> has_marker t"
  using contains_append [of _ "takeWhile P t" "dropWhile P t"] by (auto simp: has_marker_def)

lemma set_games_before_paren:
  "\<not> has_marker t \<Longrightarrow> set_games (takeWhile (\<lambda>c. c \<noteq> CHR ''('') t) = set_games t"
  using has_marker_prefix [of "\<lambda>c. c \<noteq> CHR ''(''" t] by (auto simp: set_games_def)

lemma parse_set_acc:
  "parse_set acc t =
     Inr (case set_games t of
            None \<Rightarrow> acc
          | Some (w, l) \<Rightarrow>
              (case acc of (wg, lg, ws, ls) \<Rightarrow>
                 (wg + w, lg + l, ws + (if w > l then 1 else 0), ls + (if l > w then 1 else 0))))"
  by (cases acc) (auto simp: parse_set_games split: option.splits)

text \<open>
  C8. Score parsing never raises: for every argument \<^verbatim>\<open>parse_match_score\<close> returns a
  tuple. For an argument that is not a string it returns (0, 0, 0, 0). For a string the result
  is the tally of what its whitespace-separated tokens contribute: the sums of the two game
  counts of the parsed tokens, and one set for the side with strictly more games in each. A
  token with a retirement or walkover marker (RET, W/O, def.) contributes nothing, a
  tiebreak score in parentheses is stripped before parsing, a malformed token contributes
  nothing, and a string whose tokens all contribute nothing gives (0, 0, 0, 0).
\<close>

theorem parse_match_score_never_raises:
  "(\<exists>r. parse_match_score v = Inr r) \<and>
   ((\<forall>s. v \<noteq> PyStr s) \<longrightarrow> parse_match_score v = Inr (0, 0, 0, 0)) \<and>
   parse_match_score (PyStr s) = Inr (tally_of (List.map_filter set_games (split_ws s))) \<and>
   (list_all (\<lambda>t. set_games t = None) (split_ws s) \<longrightarrow>
      parse_match_score (PyStr s) = Inr (0, 0, 0, 0)) \<and>
   (has_marker t \<longrightarrow> parse_set acc t = Inr acc) \<and>
   (\<not> has_marker t \<longrightarrow> parse_set acc t = parse_set acc (takeWhile (\<lambda>c. c \<noteq> CHR ''('') t)) \<and>
   (set_games t = None \<longrightarrow> parse_set acc t = Inr acc) \<and>
   (set_games t = Some (w, l) \<longrightarrow>
      parse_set (wg, lg, ws, ls) t =
        Inr (wg + w, lg + l, ws + (if w > l then 1 else 0), ls + (if l > w then 1 else 0)))"
proof -
  have a: "\<exists>r. parse_match_score v = Inr r"
    by (cases v) (metis parse_match_score_str, (simp add: parse_match_score_def)+)
  have b: "parse_match_score v = Inr (0, 0, 0, 0)" if "\<forall>s. v \<noteq> PyStr s"
    using that by (cases v) (simp_all add: parse_match_score_def)
  have c: "parse_match_score (PyStr s) = Inr (0, 0, 0, 0)"
    if "list_all (\<lambda>t. set_games t = None) (split_ws s)"
  proof -
    have "List.map_filter set_games (split_ws s) = []"
      using that by (induction "split_ws s" arbitrary: s) (auto simp: List.map_filter_def list_all_iff)
    then show ?thesis by (simp add: parse_match_score_str tally_of_def)
  qed
  have d: "parse_set acc t = Inr acc" if "has_marker t"
    using that by (simp add: parse_set_acc set_games_def)
  have e: "parse_set acc t = parse_set acc (takeWhile (\<lambda>c. c \<noteq> CHR ''('') t)" if "\<not> has_marker t"
    by (simp add: parse_set_acc set_games_before_paren [OF that])
  show ?thesis
    using a b c d e by (simp add: parse_match_score_str parse_set_acc)
qed

theorem parse_match_score_never_raises_witness:
  "parse_match_score PyNaN = Inr (0, 0, 0, 0) \<and>
   parse_match_score (PyStr ''6-4 3-6 7-6(5) RET'') = Inr (16, 16, 2, 1) \<and>
   list_all (\<lambda>t. set_games t = None) (split_ws ''abc W/O 6-x 6--4'') \<and>
   parse_match_score (PyStr ''abc W/O 6-x 6--4'') = Inr (0, 0, 0, 0) \<and>
   has_marker ''2-0RET'' \<and> parse_set (6, 4, 1, 0) ''2-0RET'' = Inr (6, 4, 1, 0) \<and>
   \<not> has_marker ''7-6(5)'' \<and> set_games ''7-6(5)'' = Some (7, 6) \<and>
   parse_set (9, 10, 1, 1) ''7-6(5)'' = Inr (16, 16, 2, 1) \<and>
   set_games ''6-x'' = None \<and> parse_set (6, 4, 1, 0) ''6-x'' = Inr (6, 4, 1, 0)"
proof -
  have sp: "split_ws ''6-4 3-6 7-6(5) RET'' = [''6-4'', ''3-6'', ''7-6(5)'', ''RET'']"
    "split_ws ''abc W/O 6-x 6--4'' = [''abc'', ''W/O'', ''6-x'', ''6--4'']"
    by (simp_all add: split_ws_def is_space_def)
  have g: "set_games ''6-4'' = Some (6, 4)" "set_games ''3-6'' = Some (3, 6)"
    "set_games ''7-6(5)'' = Some (7, 6)" "set_games ''RET'' = None"
    "set_games ''abc'' = None" "set_games ''W/O'' = None" "set_games ''6-x'' = None"
    "set_games ''6--4'' = None" "set_games ''7-6'' = Some (7, 6)"
    by (simp_all add: set_games_def has_marker_def py_int_def strip_def is_space_def digit_of_def Let_def)
  have m: "has_marker ''2-0RET''" "\<not> has_marker ''7-6(5)''"
    by (simp_all add: has_marker_def)
  from parse_match_score_never_raises [of PyNaN "''6-4 3-6 7-6(5) RET''" "''7-6(5)''" "(9, 10, 1, 1)" 7 6 9 10 1 1]
    parse_match_score_never_raises [of PyNaN "''abc W/O 6-x 6--4''" "''2-0RET''" "(6, 4, 1, 0)" 0 0 0 0 0 0]
    parse_match_score_never_raises [of PyNaN "''abc W/O 6-x 6--4''" "''6-x''" "(6, 4, 1, 0)" 0 0 0 0 0 0]
  show ?thesis
    by (simp add: sp g m tally_of_def List.map_filter_def parse_set_acc)
qed

end
